theory Spec2Isabelle
  imports Main "HOL-Library.Word"
begin

section \<open>Line diff of the JSON comparison view (\<open>features/json/JsonDiff.tsx\<close>)\<close>

subsection \<open>Data model\<close>

text \<open>
  A JavaScript string is a sequence of UTF-16 code units. \<open>ascii\<close> embeds an
  ASCII literal, one code unit per character.
\<close>

type_synonym code_unit = "16 word"
type_synonym jsstring = "code_unit list"

definition ascii :: "string \<Rightarrow> jsstring" where
  "ascii s = map (\<lambda>c. of_nat (of_char c)) s"

abbreviation LF :: code_unit where
  "LF \<equiv> 0x0A"

abbreviation CR :: code_unit where
  "CR \<equiv> 0x0D"

text \<open>
  \<^verbatim>\<open>type LineStatus = 'unchanged' | 'added' | 'removed' | 'modified'\<close>
\<close>

datatype LineStatus = Unchanged | Added | Removed | Modified

record LineDiffResult =
  oldStatuses :: "LineStatus list"
  newStatuses :: "LineStatus list"

text \<open>
  The local type \<open>Op\<close> of \<open>computeLineDiff\<close>: \<open>equal\<close> and \<open>modify\<close> carry
  \<open>oldIndex\<close> and \<open>newIndex\<close>, \<open>remove\<close> carries \<open>oldIndex\<close>, \<open>add\<close> carries
  \<open>newIndex\<close>.
\<close>

datatype Op = OpEqual nat nat | OpRemove nat | OpAdd nat | OpModify nat nat

text \<open>
  Array accesses are checked. Where the source would read \<open>undefined\<close> from a missing
  cell, raise a \<open>TypeError\<close> on a missing row, or grow an array by a write past its end,
  the model stops with \<open>OutOfBounds\<close>; a result \<open>Inr\<close> therefore certifies that every
  access of the run stayed inside the arrays.
\<close>

datatype error = OutOfBounds

definition bind :: "error + 'a \<Rightarrow> ('a \<Rightarrow> error + 'b) \<Rightarrow> error + 'b" where
  "bind r f = (case r of Inl e \<Rightarrow> Inl e | Inr x \<Rightarrow> f x)"

definition get :: "'a list \<Rightarrow> nat \<Rightarrow> error + 'a" where
  "get xs i = (if i < length xs then Inr (xs ! i) else Inl OutOfBounds)"

definition put :: "'a list \<Rightarrow> nat \<Rightarrow> 'a \<Rightarrow> error + 'a list" where
  "put xs i v = (if i < length xs then Inr (xs[i := v]) else Inl OutOfBounds)"

definition get2 :: "'a list list \<Rightarrow> nat \<Rightarrow> nat \<Rightarrow> error + 'a" where
  "get2 dp i j = bind (get dp i) (\<lambda>row. get row j)"

definition put2 :: "'a list list \<Rightarrow> nat \<Rightarrow> nat \<Rightarrow> 'a \<Rightarrow> error + 'a list list" where
  "put2 dp i j v = bind (get dp i) (\<lambda>row. bind (put row j v) (\<lambda>row'. put dp i row'))"

subsection \<open>Line normalisation\<close>

text \<open>
  \<^verbatim>\<open>text.split('\n')\<close>: the pieces between the line feeds, so one piece more than
  there are line feeds, and one empty piece for the empty string.
\<close>

fun split_newline :: "jsstring \<Rightarrow> jsstring list" where
  "split_newline [] = [[]]"
| "split_newline (c # cs) =
     (if c = LF then [] # split_newline cs
      else (case split_newline cs of
              [] \<Rightarrow> [[c]]
            | l # ls \<Rightarrow> (c # l) # ls))"

text \<open>
  The class \<^verbatim>\<open>\s\<close> of a regular expression without the \<open>u\<close> flag: the white space
  and line terminator code units of ECMAScript.
\<close>

definition is_space :: "code_unit \<Rightarrow> bool" where
  "is_space c \<longleftrightarrow>
     c = 0x09 \<or> c = 0x0A \<or> c = 0x0B \<or> c = 0x0C \<or> c = 0x0D \<or> c = 0x20 \<or>
     c = 0xA0 \<or> c = 0x1680 \<or> (0x2000 \<le> c \<and> c \<le> 0x200A) \<or>
     c = 0x2028 \<or> c = 0x2029 \<or> c = 0x202F \<or> c = 0x205F \<or> c = 0x3000 \<or>
     c = 0xFEFF"

text \<open>
  \<^verbatim>\<open>line.replace(/\s+$/g, '')\<close>: the one match is the maximal run of white space
  that ends the line, and it is deleted.
\<close>

definition trim_end :: "jsstring \<Rightarrow> jsstring" where
  "trim_end line = rev (dropWhile is_space (rev line))"

subsection \<open>The LCS matrix\<close>

text \<open>
  Indices are natural numbers. The source computes \<open>i - 1\<close> and \<open>j - 1\<close> only where
  \<open>i\<close> and \<open>j\<close> are at least 1 (both \<open>for\<close> loops start at 1, the \<open>while\<close> loops test
  \<open>i > 0\<close> and \<open>j > 0\<close>), so the subtraction never truncates. The cells are JavaScript
  numbers holding integers no larger than a line count.

  The body of the inner loop:
  \<^verbatim>\<open>
  if (oldTrimmed[i - 1] === newTrimmed[j - 1]) dp[i][j] = dp[i - 1][j - 1] + 1;
  else dp[i][j] = Math.max(dp[i - 1][j], dp[i][j - 1]);
  \<close>
\<close>

definition fill_cell :: "'a list \<Rightarrow> 'a list \<Rightarrow> nat \<Rightarrow> nat \<Rightarrow> nat list list \<Rightarrow> error + nat list list" where
  "fill_cell oldTrimmed newTrimmed i j dp =
     bind (get oldTrimmed (i - 1)) (\<lambda>a.
     bind (get newTrimmed (j - 1)) (\<lambda>b.
       if a = b then
         bind (get2 dp (i - 1) (j - 1)) (\<lambda>d. put2 dp i j (d + 1))
       else
         bind (get2 dp (i - 1) j) (\<lambda>u.
         bind (get2 dp i (j - 1)) (\<lambda>l. put2 dp i j (max u l)))))"

text \<open>\<^verbatim>\<open>for (let j = 1; j <= m; j++)\<close>, entered with the current \<open>j\<close>.\<close>

function fill_row :: "'a list \<Rightarrow> 'a list \<Rightarrow> nat \<Rightarrow> nat \<Rightarrow> nat \<Rightarrow> nat list list \<Rightarrow> error + nat list list" where
  "fill_row oldTrimmed newTrimmed m i j dp =
     (if j \<le> m then
        (case fill_cell oldTrimmed newTrimmed i j dp of
           Inl e \<Rightarrow> Inl e
         | Inr dp' \<Rightarrow> fill_row oldTrimmed newTrimmed m i (j + 1) dp')
      else Inr dp)"
  by pat_completeness auto
termination
  by (relation "measure (\<lambda>(oldTrimmed, newTrimmed, m, i, j, dp). Suc m - j)") auto

text \<open>\<^verbatim>\<open>for (let i = 1; i <= n; i++)\<close>, entered with the current \<open>i\<close>.\<close>

function fill_rows :: "'a list \<Rightarrow> 'a list \<Rightarrow> nat \<Rightarrow> nat \<Rightarrow> nat \<Rightarrow> nat list list \<Rightarrow> error + nat list list" where
  "fill_rows oldTrimmed newTrimmed n m i dp =
     (if i \<le> n then
        (case fill_row oldTrimmed newTrimmed m i 1 dp of
           Inl e \<Rightarrow> Inl e
         | Inr dp' \<Rightarrow> fill_rows oldTrimmed newTrimmed n m (i + 1) dp')
      else Inr dp)"
  by pat_completeness auto
termination
  by (relation "measure (\<lambda>(oldTrimmed, newTrimmed, n, m, i, dp). Suc n - i)") auto

text \<open>
  \<^verbatim>\<open>Array.from({ length: n + 1 }, () => new Array<number>(m + 1).fill(0))\<close>
  followed by the two loops.
\<close>

definition lcs_matrix :: "'a list \<Rightarrow> 'a list \<Rightarrow> error + nat list list" where
  "lcs_matrix oldTrimmed newTrimmed =
     (let n = length oldTrimmed; m = length newTrimmed
      in fill_rows oldTrimmed newTrimmed n m 1 (replicate (n + 1) (replicate (m + 1) 0)))"

subsection \<open>Backtracking\<close>

text \<open>
  One iteration of \<^verbatim>\<open>while (i > 0 && j > 0)\<close>: the operation pushed and the new
  \<open>(i, j)\<close>.
\<close>

definition backtrack_step :: "'a list \<Rightarrow> 'a list \<Rightarrow> nat list list \<Rightarrow> nat \<Rightarrow> nat \<Rightarrow> error + (Op \<times> nat \<times> nat)" where
  "backtrack_step oldTrimmed newTrimmed dp i j =
     bind (get oldTrimmed (i - 1)) (\<lambda>a.
     bind (get newTrimmed (j - 1)) (\<lambda>b.
       if a = b then Inr (OpEqual (i - 1) (j - 1), i - 1, j - 1)
       else
         bind (get2 dp (i - 1) (j - 1)) (\<lambda>d.
         bind (get2 dp (i - 1) j) (\<lambda>u.
         bind (get2 dp i (j - 1)) (\<lambda>l.
           if d \<ge> u \<and> d \<ge> l then Inr (OpModify (i - 1) (j - 1), i - 1, j - 1)
           else if u \<ge> l then Inr (OpRemove (i - 1), i - 1, j)
           else Inr (OpAdd (j - 1), i, j - 1))))))"

function backtrack :: "'a list \<Rightarrow> 'a list \<Rightarrow> nat list list \<Rightarrow> nat \<Rightarrow> nat \<Rightarrow> Op list \<Rightarrow> error + (nat \<times> nat \<times> Op list)" where
  "backtrack oldTrimmed newTrimmed dp i j ops =
     (if i > 0 \<and> j > 0 then
        (case backtrack_step oldTrimmed newTrimmed dp i j of
           Inl e \<Rightarrow> Inl e
         | Inr (op, i', j') \<Rightarrow> backtrack oldTrimmed newTrimmed dp i' j' (ops @ [op]))
      else Inr (i, j, ops))"
  by pat_completeness auto
termination
  by (relation "measure (\<lambda>(oldTrimmed, newTrimmed, dp, i, j, ops). i + j)")
    (auto simp: backtrack_step_def bind_def split: sum.splits if_splits)

text \<open>\<^verbatim>\<open>while (i > 0) { ops.push({ type: 'remove', oldIndex: i - 1 }); i--; }\<close>\<close>

fun drain_old :: "nat \<Rightarrow> Op list \<Rightarrow> nat \<times> Op list" where
  "drain_old 0 ops = (0, ops)"
| "drain_old (Suc i) ops = drain_old i (ops @ [OpRemove i])"

text \<open>\<^verbatim>\<open>while (j > 0) { ops.push({ type: 'add', newIndex: j - 1 }); j--; }\<close>\<close>

fun drain_new :: "nat \<Rightarrow> Op list \<Rightarrow> nat \<times> Op list" where
  "drain_new 0 ops = (0, ops)"
| "drain_new (Suc j) ops = drain_new j (ops @ [OpAdd j])"

text \<open>
  The three loops from \<open>(i, j) = (n, m)\<close> and \<^verbatim>\<open>ops.reverse()\<close>; the final
  \<open>i\<close> and \<open>j\<close> are returned with the operations.
\<close>

definition edit_script :: "'a list \<Rightarrow> 'a list \<Rightarrow> nat list list \<Rightarrow> error + (nat \<times> nat \<times> Op list)" where
  "edit_script oldTrimmed newTrimmed dp =
     bind (backtrack oldTrimmed newTrimmed dp (length oldTrimmed) (length newTrimmed) [])
       (\<lambda>(i, j, ops).
          let (i', ops') = drain_old i ops;
              (j', ops'') = drain_new j ops'
          in Inr (i', j', rev ops''))"

subsection \<open>Projection to line statuses\<close>

text \<open>The body of \<^verbatim>\<open>for (const op of ops)\<close> on the two status arrays.\<close>

fun apply_op :: "Op \<Rightarrow> LineStatus list \<times> LineStatus list \<Rightarrow> error + (LineStatus list \<times> LineStatus list)" where
  "apply_op (OpEqual oldIndex newIndex) (os, ns) =
     bind (put os oldIndex Unchanged) (\<lambda>os'.
     bind (put ns newIndex Unchanged) (\<lambda>ns'. Inr (os', ns')))"
| "apply_op (OpRemove oldIndex) (os, ns) =
     bind (put os oldIndex Removed) (\<lambda>os'. Inr (os', ns))"
| "apply_op (OpAdd newIndex) (os, ns) =
     bind (put ns newIndex Added) (\<lambda>ns'. Inr (os, ns'))"
| "apply_op (OpModify oldIndex newIndex) (os, ns) =
     bind (put os oldIndex Modified) (\<lambda>os'.
     bind (put ns newIndex Modified) (\<lambda>ns'. Inr (os', ns')))"

fun apply_ops :: "Op list \<Rightarrow> LineStatus list \<times> LineStatus list \<Rightarrow> error + (LineStatus list \<times> LineStatus list)" where
  "apply_ops [] st = Inr st"
| "apply_ops (op # ops) st =
     (case apply_op op st of Inl e \<Rightarrow> Inl e | Inr st' \<Rightarrow> apply_ops ops st')"

definition project :: "Op list \<Rightarrow> nat \<Rightarrow> nat \<Rightarrow> error + LineDiffResult" where
  "project ops n m =
     bind (apply_ops ops (replicate n Unchanged, replicate m Unchanged))
       (\<lambda>(os, ns). Inr \<lparr>oldStatuses = os, newStatuses = ns\<rparr>)"

subsection \<open>The whole function\<close>

text \<open>The comparison keys of a text: its lines with trailing white space removed.\<close>

definition trimmed_lines :: "jsstring \<Rightarrow> jsstring list" where
  "trimmed_lines text = map trim_end (split_newline text)"

text \<open>
  \<open>computeLineDiff\<close> up to \<^verbatim>\<open>ops.reverse()\<close>: the final \<open>i\<close> and \<open>j\<close> of
  the loops and the operations.
\<close>

definition diff_ops :: "jsstring \<Rightarrow> jsstring \<Rightarrow> error + (nat \<times> nat \<times> Op list)" where
  "diff_ops oldText newText =
     (let oldTrimmed = trimmed_lines oldText; newTrimmed = trimmed_lines newText
      in bind (lcs_matrix oldTrimmed newTrimmed) (edit_script oldTrimmed newTrimmed))"

definition computeLineDiff :: "jsstring \<Rightarrow> jsstring \<Rightarrow> error + LineDiffResult" where
  "computeLineDiff oldText newText =
     (let n = length (trimmed_lines oldText); m = length (trimmed_lines newText)
      in bind (diff_ops oldText newText) (\<lambda>(i, j, ops). project ops n m))"

text \<open>
  The counters of the view:
  \<^verbatim>\<open>statuses.filter(status => status === 'added').length\<close>.
\<close>

definition count_status :: "LineStatus \<Rightarrow> LineStatus list \<Rightarrow> nat" where
  "count_status s statuses = length (filter (\<lambda>status. status = s) statuses)"

subsection \<open>Functions used in the proofs\<close>

text \<open>The recurrence of the matrix as a function of the two indices.\<close>

fun lcs_cell :: "'a list \<Rightarrow> 'a list \<Rightarrow> nat \<Rightarrow> nat \<Rightarrow> nat" where
  "lcs_cell xs ys 0 j = 0"
| "lcs_cell xs ys (Suc i) 0 = 0"
| "lcs_cell xs ys (Suc i) (Suc j) =
     (if xs ! i = ys ! j then lcs_cell xs ys i j + 1
      else max (lcs_cell xs ys i (Suc j)) (lcs_cell xs ys (Suc i) j))"

text \<open>The state of the matrix when the loops reach cell \<open>(i, j)\<close>: the cells before it in
  row-major order hold their final value, the others still hold 0.\<close>

definition filled :: "'a list \<Rightarrow> 'a list \<Rightarrow> nat \<Rightarrow> nat \<Rightarrow> nat list list \<Rightarrow> bool" where
  "filled xs ys i j dp \<longleftrightarrow>
     length dp = Suc (length xs) \<and>
     (\<forall>a\<le>length xs. length (dp ! a) = Suc (length ys)) \<and>
     (\<forall>a\<le>length xs. \<forall>b\<le>length ys.
        dp ! a ! b = (if a < i \<or> (a = i \<and> b < j) then lcs_cell xs ys a b else 0))"

text \<open>The matrix with every cell final.\<close>

definition lcs_table :: "'a list \<Rightarrow> 'a list \<Rightarrow> nat list list" where
  "lcs_table xs ys =
     map (\<lambda>a. map (\<lambda>b. lcs_cell xs ys a b) [0..<Suc (length ys)]) [0..<Suc (length xs)]"

text \<open>The operations that lead from \<open>(0, 0)\<close> to \<open>(i, j)\<close>, in their final order.\<close>

fun walk :: "'a list \<Rightarrow> 'a list \<Rightarrow> nat \<Rightarrow> nat \<Rightarrow> Op list" where
  "walk xs ys 0 0 = []"
| "walk xs ys (Suc i) 0 = walk xs ys i 0 @ [OpRemove i]"
| "walk xs ys 0 (Suc j) = walk xs ys 0 j @ [OpAdd j]"
| "walk xs ys (Suc i) (Suc j) =
     (if xs ! i = ys ! j then walk xs ys i j @ [OpEqual i j]
      else if lcs_cell xs ys i j \<ge> lcs_cell xs ys i (Suc j) \<and>
              lcs_cell xs ys i j \<ge> lcs_cell xs ys (Suc i) j
        then walk xs ys i j @ [OpModify i j]
      else if lcs_cell xs ys i (Suc j) \<ge> lcs_cell xs ys (Suc i) j
        then walk xs ys i (Suc j) @ [OpRemove i]
      else walk xs ys (Suc i) j @ [OpAdd j])"

text \<open>The \<open>oldIndex\<close> fields of a sequence of operations, in order.\<close>

fun old_indices :: "Op list \<Rightarrow> nat list" where
  "old_indices [] = []"
| "old_indices (OpEqual oldIndex newIndex # ops) = oldIndex # old_indices ops"
| "old_indices (OpRemove oldIndex # ops) = oldIndex # old_indices ops"
| "old_indices (OpAdd newIndex # ops) = old_indices ops"
| "old_indices (OpModify oldIndex newIndex # ops) = oldIndex # old_indices ops"

text \<open>The \<open>newIndex\<close> fields of a sequence of operations, in order.\<close>

fun new_indices :: "Op list \<Rightarrow> nat list" where
  "new_indices [] = []"
| "new_indices (OpEqual oldIndex newIndex # ops) = newIndex # new_indices ops"
| "new_indices (OpRemove oldIndex # ops) = new_indices ops"
| "new_indices (OpAdd newIndex # ops) = newIndex # new_indices ops"
| "new_indices (OpModify oldIndex newIndex # ops) = newIndex # new_indices ops"

text \<open>The status each operation gives to its old line, in order.\<close>

fun old_marks :: "Op list \<Rightarrow> LineStatus list" where
  "old_marks [] = []"
| "old_marks (OpEqual oldIndex newIndex # ops) = Unchanged # old_marks ops"
| "old_marks (OpRemove oldIndex # ops) = Removed # old_marks ops"
| "old_marks (OpAdd newIndex # ops) = old_marks ops"
| "old_marks (OpModify oldIndex newIndex # ops) = Modified # old_marks ops"

text \<open>The status each operation gives to its new line, in order.\<close>

fun new_marks :: "Op list \<Rightarrow> LineStatus list" where
  "new_marks [] = []"
| "new_marks (OpEqual oldIndex newIndex # ops) = Unchanged # new_marks ops"
| "new_marks (OpRemove oldIndex # ops) = new_marks ops"
| "new_marks (OpAdd newIndex # ops) = Added # new_marks ops"
| "new_marks (OpModify oldIndex newIndex # ops) = Modified # new_marks ops"

text \<open>A line without the carriage return that a CRLF line ending leaves at its end.\<close>

definition strip_cr :: "jsstring \<Rightarrow> jsstring" where
  "strip_cr line = (if line \<noteq> [] \<and> last line = CR then butlast line else line)"

declare fill_row.simps [simp del] fill_rows.simps [simp del] backtrack.simps [simp del]

section \<open>Properties\<close>

subsection \<open>Checked accesses inside the arrays\<close>

lemma bind_Inr [simp]: "bind (Inr x) f = f x"
  by (simp add: bind_def)
lemma bind_Inl [simp]: "bind (Inl e) f = Inl e"
  by (simp add: bind_def)
lemma get_in [simp]: "i < length xs \<Longrightarrow> get xs i = Inr (xs ! i)"
  by (simp add: get_def)
lemma put_in [simp]: "i < length xs \<Longrightarrow> put xs i v = Inr (xs[i := v])"
  by (simp add: put_def)
lemma get2_in: "i < length dp \<Longrightarrow> j < length (dp ! i) \<Longrightarrow> get2 dp i j = Inr (dp ! i ! j)"
  by (simp add: get2_def)
lemma put2_in: "i < length dp \<Longrightarrow> j < length (dp ! i) \<Longrightarrow> put2 dp i j v = Inr (dp[i := (dp ! i)[j := v]])"
  by (simp add: put2_def)

subsection \<open>The loops that fill the matrix\<close>

lemma lcs_cell_0_right [simp]: "lcs_cell xs ys i 0 = 0"
  by (cases i) simp_all

lemma filled_init: "filled xs ys 1 1 (replicate (length xs + 1) (replicate (length ys + 1) 0))"
proof -
  have "filled xs ys 1 1 (replicate (Suc (length xs)) (replicate (Suc (length ys)) 0))"
    unfolding filled_def by (auto simp del: replicate.simps)
  then show ?thesis by simp
qed

lemma fill_cell_filled:
  assumes inv: "filled xs ys i j dp"
    and i: "0 < i" "i \<le> length xs" and j: "0 < j" "j \<le> length ys"
  shows "\<exists>dp'. fill_cell xs ys i j dp = Inr dp' \<and> filled xs ys i (Suc j) dp'"
proof -
  obtain i0 j0 where ij: "i = Suc i0" "j = Suc j0"
    using i j by (metis Suc_pred)
  define v where "v = lcs_cell xs ys i j"
  define dp' where "dp' = dp[i := (dp ! i)[j := v]]"
  have len: "length dp = Suc (length xs)"
    and rows: "\<And>a. a \<le> length xs \<Longrightarrow> length (dp ! a) = Suc (length ys)"
    and cells: "\<And>a b. a \<le> length xs \<Longrightarrow> b \<le> length ys \<Longrightarrow>
        dp ! a ! b = (if a < i \<or> (a = i \<and> b < j) then lcs_cell xs ys a b else 0)"
    using inv by (auto simp: filled_def)
  have d: "dp ! i0 ! j0 = lcs_cell xs ys i0 j0"
    and u: "dp ! i0 ! j = lcs_cell xs ys i0 j"
    and l: "dp ! i ! j0 = lcs_cell xs ys i j0"
    using i j ij by (simp_all add: cells)
  have "fill_cell xs ys i j dp = Inr dp'"
    using i j ij d u l len rows [of i] rows [of i0]
    by (simp add: fill_cell_def get2_in put2_in dp'_def v_def)
  moreover have "filled xs ys i (Suc j) dp'"
    unfolding filled_def
  proof (intro conjI allI impI)
    show "length dp' = Suc (length xs)" by (simp add: dp'_def len)
    fix a assume a: "a \<le> length xs"
    show "length (dp' ! a) = Suc (length ys)"
      using a len rows by (cases "a = i") (simp_all add: dp'_def)
    fix b assume b: "b \<le> length ys"
    show "dp' ! a ! b = (if a < i \<or> (a = i \<and> b < Suc j) then lcs_cell xs ys a b else 0)"
    proof (cases "a = i \<and> b = j")
      case True
      then show ?thesis using i j len rows [of i] by (simp add: dp'_def v_def)
    next
      case False
      then have "dp' ! a ! b = dp ! a ! b"
        using a b len rows [of i] by (cases "a = i") (auto simp: dp'_def)
      then show ?thesis using False cells [OF a b] by auto
    qed
  qed
  ultimately show ?thesis by blast
qed

lemma fill_row_filled:
  "filled xs ys i j dp \<Longrightarrow> 0 < i \<Longrightarrow> i \<le> length xs \<Longrightarrow> 0 < j \<Longrightarrow> j \<le> Suc (length ys) \<Longrightarrow>
     \<exists>dp'. fill_row xs ys (length ys) i j dp = Inr dp' \<and> filled xs ys i (Suc (length ys)) dp'"
proof (induction xs ys "length ys" i j dp rule: fill_row.induct)
  case (1 xs ys i j dp)
  show ?case
  proof (cases "j \<le> length ys")
    case True
    obtain dp' where s: "fill_cell xs ys i j dp = Inr dp'" and f: "filled xs ys i (Suc j) dp'"
      using fill_cell_filled [OF "1.prems"(1-3) "1.prems"(4) True] by blast
    have "\<exists>dp''. fill_row xs ys (length ys) i (j + 1) dp' = Inr dp'' \<and> filled xs ys i (Suc (length ys)) dp''"
      using "1.hyps" [OF True s] f "1.prems" True by simp
    then show ?thesis using True s by (subst fill_row.simps) simp
  next
    case False
    then have "j = Suc (length ys)" using "1.prems" by simp
    then show ?thesis using "1.prems" by (subst fill_row.simps) simp
  qed
qed

lemma filled_next_row: "filled xs ys i (Suc (length ys)) dp \<Longrightarrow> filled xs ys (Suc i) 1 dp"
  unfolding filled_def by (auto simp: less_Suc_eq)

lemma fill_rows_filled:
  "filled xs ys i 1 dp \<Longrightarrow> 0 < i \<Longrightarrow> i \<le> Suc (length xs) \<Longrightarrow>
     \<exists>dp'. fill_rows xs ys (length xs) (length ys) i dp = Inr dp' \<and> filled xs ys (Suc (length xs)) 1 dp'"
proof (induction xs ys "length xs" "length ys" i dp rule: fill_rows.induct)
  case (1 xs ys i dp)
  show ?case
  proof (cases "i \<le> length xs")
    case True
    obtain dp' where s: "fill_row xs ys (length ys) i 1 dp = Inr dp'"
      and f: "filled xs ys i (Suc (length ys)) dp'"
      using fill_row_filled [OF "1.prems"(1,2) True] by auto
    have "\<exists>dp''. fill_rows xs ys (length xs) (length ys) (i + 1) dp' = Inr dp'' \<and>
        filled xs ys (Suc (length xs)) 1 dp''"
      using "1.hyps" [OF True s] filled_next_row [OF f] True by simp
    then show ?thesis using True s by (subst fill_rows.simps) simp
  next
    case False
    then have "i = Suc (length xs)" using "1.prems" by simp
    then show ?thesis using "1.prems" by (subst fill_rows.simps) simp
  qed
qed

lemma filled_final: "filled xs ys (Suc (length xs)) 1 dp \<Longrightarrow> dp = lcs_table xs ys"
  unfolding filled_def lcs_table_def
  by (intro nth_equalityI) (auto simp: less_Suc_eq_le simp del: upt_Suc)

lemma lcs_matrix_table: "lcs_matrix xs ys = Inr (lcs_table xs ys)"
  using fill_rows_filled [OF filled_init, of xs ys] filled_final
  by (fastforce simp: lcs_matrix_def Let_def)

subsection \<open>The backtracking loops\<close>

lemma length_lcs_table: "length (lcs_table xs ys) = Suc (length xs)"
  by (simp add: lcs_table_def)

lemma get2_lcs_table:
  "a \<le> length xs \<Longrightarrow> b \<le> length ys \<Longrightarrow> get2 (lcs_table xs ys) a b = Inr (lcs_cell xs ys a b)"
  by (simp add: get2_def lcs_table_def less_Suc_eq_le del: upt_Suc)

lemma backtrack_step_table:
  assumes "Suc i \<le> length xs" "Suc j \<le> length ys"
  shows "backtrack_step xs ys (lcs_table xs ys) (Suc i) (Suc j) =
     Inr (if xs ! i = ys ! j then (OpEqual i j, i, j)
          else if lcs_cell xs ys i j \<ge> lcs_cell xs ys i (Suc j) \<and>
                  lcs_cell xs ys i j \<ge> lcs_cell xs ys (Suc i) j
            then (OpModify i j, i, j)
          else if lcs_cell xs ys i (Suc j) \<ge> lcs_cell xs ys (Suc i) j
            then (OpRemove i, i, Suc j)
          else (OpAdd j, Suc i, j))"
  using assms by (simp add: backtrack_step_def get2_lcs_table)

lemma backtrack_walk:
  "i \<le> length xs \<Longrightarrow> j \<le> length ys \<Longrightarrow> dp = lcs_table xs ys \<Longrightarrow>
     \<exists>i' j' ops'. backtrack xs ys dp i j ops = Inr (i', j', ops') \<and>
        (i' = 0 \<or> j' = 0) \<and> walk xs ys i' j' @ rev ops' = walk xs ys i j @ rev ops"
proof (induction xs ys dp i j ops rule: backtrack.induct)
  case (1 xs ys dp i j ops)
  show ?case
  proof (cases "i > 0 \<and> j > 0")
    case False
    then show ?thesis by (subst backtrack.simps) auto
  next
    case True
    then obtain i0 j0 where ij: "i = Suc i0" "j = Suc j0"
      by (metis Suc_pred)
    obtain op i' j' where s: "backtrack_step xs ys dp i j = Inr (op, i', j')"
      using backtrack_step_table [of i0 xs j0 ys] "1.prems" ij by (metis prod_cases3)
    have w: "walk xs ys i j = walk xs ys i' j' @ [op]" and le: "i' \<le> i" "j' \<le> j"
      using s backtrack_step_table [of i0 xs j0 ys] "1.prems" ij
      by (auto split: if_splits)
    obtain i'' j'' ops'' where
      b: "backtrack xs ys dp i' j' (ops @ [op]) = Inr (i'', j'', ops'')"
      and z: "i'' = 0 \<or> j'' = 0"
      and e: "walk xs ys i'' j'' @ rev ops'' = walk xs ys i' j' @ rev (ops @ [op])"
      using "1.IH" [OF True s refl refl] le "1.prems" by force
    have "backtrack xs ys dp i j ops = Inr (i'', j'', ops'')"
      using True s b by (subst backtrack.simps) simp
    then show ?thesis using z e w by simp
  qed
qed

lemma drain_old_eq: "drain_old i ops = (0, ops @ map OpRemove (rev [0..<i]))"
  by (induction i arbitrary: ops) simp_all

lemma drain_new_eq: "drain_new j ops = (0, ops @ map OpAdd (rev [0..<j]))"
  by (induction j arbitrary: ops) simp_all

lemma walk_old_only: "walk xs ys i 0 = map OpRemove [0..<i]"
  by (induction i) simp_all

lemma walk_new_only: "walk xs ys 0 j = map OpAdd [0..<j]"
  by (induction j) simp_all

lemma edit_script_walk:
  "edit_script xs ys (lcs_table xs ys) = Inr (0, 0, walk xs ys (length xs) (length ys))"
proof -
  obtain i' j' ops' where
    b: "backtrack xs ys (lcs_table xs ys) (length xs) (length ys) [] = Inr (i', j', ops')"
    and z: "i' = 0 \<or> j' = 0"
    and e: "walk xs ys i' j' @ rev ops' = walk xs ys (length xs) (length ys)"
    using backtrack_walk [of "length xs" xs "length ys" ys "lcs_table xs ys" "[]"] by auto
  have "map OpAdd [0..<j'] @ map OpRemove [0..<i'] = walk xs ys i' j'"
    using z by (auto simp: walk_old_only walk_new_only)
  then have "map OpAdd [0..<j'] @ map OpRemove [0..<i'] @ rev ops' =
      walk xs ys (length xs) (length ys)"
    using e by (metis append_assoc)
  then show ?thesis
    using b by (simp add: edit_script_def drain_old_eq drain_new_eq rev_map)
qed

subsection \<open>The operations and the status arrays\<close>

lemma old_indices_append [simp]: "old_indices (ops @ ops') = old_indices ops @ old_indices ops'"
  by (induction ops rule: old_indices.induct) simp_all

lemma new_indices_append [simp]: "new_indices (ops @ ops') = new_indices ops @ new_indices ops'"
  by (induction ops rule: new_indices.induct) simp_all

lemma old_marks_append [simp]: "old_marks (ops @ ops') = old_marks ops @ old_marks ops'"
  by (induction ops rule: old_marks.induct) simp_all

lemma new_marks_append [simp]: "new_marks (ops @ ops') = new_marks ops @ new_marks ops'"
  by (induction ops rule: new_marks.induct) simp_all

lemma length_old_marks: "length (old_marks ops) = length (old_indices ops)"
  by (induction ops rule: old_marks.induct) simp_all

lemma length_new_marks: "length (new_marks ops) = length (new_indices ops)"
  by (induction ops rule: new_marks.induct) simp_all

lemma old_indices_walk: "old_indices (walk xs ys i j) = [0..<i]"
  by (induction xs ys i j rule: walk.induct) simp_all

lemma new_indices_walk: "new_indices (walk xs ys i j) = [0..<j]"
  by (induction xs ys i j rule: walk.induct) simp_all

lemma take_Suc_update: "a < length xs \<Longrightarrow> take (Suc a) (xs[a := v]) = take a xs @ [v]"
  by (simp add: take_Suc_conv_app_nth)

lemma Cons_eq_upt_conv: "x # xs = [i..<j] \<longleftrightarrow> i < j \<and> x = i \<and> xs = [Suc i..<j]"
  using upt_eq_Cons_conv [of i j x xs] by auto

lemma Nil_eq_upt_conv: "[] = [i..<j] \<longleftrightarrow> j \<le> i"
proof -
  have "[] = [i..<j] \<longleftrightarrow> [i..<j] = []" by (rule eq_commute)
  then show ?thesis by auto
qed

lemma apply_ops_marks:
  "old_indices ops = [a..<length os] \<Longrightarrow> new_indices ops = [b..<length ns] \<Longrightarrow>
   a \<le> length os \<Longrightarrow> b \<le> length ns \<Longrightarrow>
     apply_ops ops (os, ns) = Inr (take a os @ old_marks ops, take b ns @ new_marks ops)"
proof (induction ops arbitrary: a b os ns)
  case Nil
  then have "a = length os" "b = length ns"
    by (simp_all add: Nil_eq_upt_conv)
  then show ?case by simp
next
  case (Cons op ops)
  show ?case
  proof (cases op)
    case (OpEqual k l)
    with Cons.prems have k: "k = a" "a < length os" "old_indices ops = [Suc a..<length os]"
      and l: "l = b" "b < length ns" "new_indices ops = [Suc b..<length ns]"
      by (simp_all add: Cons_eq_upt_conv)
    have "apply_ops ops (os[a := Unchanged], ns[b := Unchanged]) =
        Inr (take (Suc a) (os[a := Unchanged]) @ old_marks ops,
             take (Suc b) (ns[b := Unchanged]) @ new_marks ops)"
      using k l by (intro Cons.IH) simp_all
    then show ?thesis using OpEqual k l by (simp add: take_Suc_update)
  next
    case (OpRemove k)
    with Cons.prems have k: "k = a" "a < length os" "old_indices ops = [Suc a..<length os]"
      and l: "new_indices ops = [b..<length ns]"
      by (simp_all add: Cons_eq_upt_conv)
    have "apply_ops ops (os[a := Removed], ns) =
        Inr (take (Suc a) (os[a := Removed]) @ old_marks ops, take b ns @ new_marks ops)"
      using k l Cons.prems by (intro Cons.IH) simp_all
    then show ?thesis using OpRemove k l by (simp add: take_Suc_update)
  next
    case (OpAdd l)
    with Cons.prems have k: "old_indices ops = [a..<length os]"
      and l: "l = b" "b < length ns" "new_indices ops = [Suc b..<length ns]"
      by (simp_all add: Cons_eq_upt_conv)
    have "apply_ops ops (os, ns[b := Added]) =
        Inr (take a os @ old_marks ops, take (Suc b) (ns[b := Added]) @ new_marks ops)"
      using k l Cons.prems by (intro Cons.IH) simp_all
    then show ?thesis using OpAdd k l by (simp add: take_Suc_update)
  next
    case (OpModify k l)
    with Cons.prems have k: "k = a" "a < length os" "old_indices ops = [Suc a..<length os]"
      and l: "l = b" "b < length ns" "new_indices ops = [Suc b..<length ns]"
      by (simp_all add: Cons_eq_upt_conv)
    have "apply_ops ops (os[a := Modified], ns[b := Modified]) =
        Inr (take (Suc a) (os[a := Modified]) @ old_marks ops,
             take (Suc b) (ns[b := Modified]) @ new_marks ops)"
      using k l by (intro Cons.IH) simp_all
    then show ?thesis using OpModify k l by (simp add: take_Suc_update)
  qed
qed

lemma project_walk:
  "project (walk xs ys n m) n m =
     Inr \<lparr>oldStatuses = old_marks (walk xs ys n m), newStatuses = new_marks (walk xs ys n m)\<rparr>"
  using apply_ops_marks [of "walk xs ys n m" 0 "replicate n Unchanged" 0 "replicate m Unchanged"]
  by (simp add: project_def old_indices_walk new_indices_walk)

lemma diff_ops_walk:
  "diff_ops oldText newText =
     Inr (0, 0, walk (trimmed_lines oldText) (trimmed_lines newText)
              (length (trimmed_lines oldText)) (length (trimmed_lines newText)))"
  by (simp add: diff_ops_def Let_def lcs_matrix_table edit_script_walk)

lemma computeLineDiff_walk:
  "computeLineDiff oldText newText =
     Inr \<lparr>oldStatuses = old_marks (walk (trimmed_lines oldText) (trimmed_lines newText)
              (length (trimmed_lines oldText)) (length (trimmed_lines newText))),
          newStatuses = new_marks (walk (trimmed_lines oldText) (trimmed_lines newText)
              (length (trimmed_lines oldText)) (length (trimmed_lines newText)))\<rparr>"
  by (simp add: computeLineDiff_def Let_def diff_ops_walk project_walk)

subsection \<open>The cells along the walk\<close>

lemma lcs_cell_step:
  "lcs_cell xs ys i j \<le> lcs_cell xs ys (Suc i) j \<and>
   lcs_cell xs ys (Suc i) j \<le> Suc (lcs_cell xs ys i j) \<and>
   lcs_cell xs ys i j \<le> lcs_cell xs ys i (Suc j) \<and>
   lcs_cell xs ys i (Suc j) \<le> Suc (lcs_cell xs ys i j)"
proof (induction "i + j" arbitrary: i j rule: less_induct)
  case less
  have down: "lcs_cell xs ys i j \<le> lcs_cell xs ys (Suc i) j \<and>
      lcs_cell xs ys (Suc i) j \<le> Suc (lcs_cell xs ys i j)"
  proof (cases j)
    case 0
    then show ?thesis by simp
  next
    case (Suc j0)
    then show ?thesis using less [of i j0] by auto
  qed
  have right: "lcs_cell xs ys i j \<le> lcs_cell xs ys i (Suc j) \<and>
      lcs_cell xs ys i (Suc j) \<le> Suc (lcs_cell xs ys i j)"
  proof (cases i)
    case 0
    then show ?thesis by simp
  next
    case (Suc i0)
    then show ?thesis using less [of i0 j] by auto
  qed
  from down right show ?case by simp
qed

lemma lcs_cell_diag_le: "lcs_cell xs ys i j \<le> lcs_cell xs ys i (Suc j)"
  using lcs_cell_step [of xs ys i j] by simp

lemma lcs_cell_commute: "lcs_cell xs ys i j = lcs_cell ys xs j i"
proof (induction xs ys i j rule: lcs_cell.induct)
  case (3 xs ys i j)
  then show ?case by (auto simp: max.commute)
qed simp_all

lemma count_old_marks_walk:
  "count_list (old_marks (walk xs ys i j)) Unchanged = lcs_cell xs ys i j"
proof (induction xs ys i j rule: walk.induct)
  case (4 xs ys i j)
  then show ?case using lcs_cell_diag_le [of xs ys i j] by auto
qed simp_all

lemma count_new_marks_walk:
  "count_list (new_marks (walk xs ys i j)) Unchanged = lcs_cell xs ys i j"
proof (induction xs ys i j rule: walk.induct)
  case (4 xs ys i j)
  then show ?case using lcs_cell_diag_le [of xs ys i j] by auto
qed simp_all

lemma old_marks_walk_same: "old_marks (walk xs xs i i) = replicate i Unchanged"
  by (induction i) (simp_all add: replicate_append_same)

lemma new_marks_walk_same: "new_marks (walk xs xs i i) = replicate i Unchanged"
  by (induction i) (simp_all add: replicate_append_same)

subsection \<open>Lines and keys\<close>

lemma split_newline_not_Nil: "split_newline s \<noteq> []"
  by (induction s) (auto split: list.splits)

lemma length_split_newline: "length (split_newline s) = Suc (count_list s LF)"
  by (induction s) (auto split: list.splits simp: split_newline_not_Nil)

lemma trim_end_strip_cr: "trim_end (strip_cr line) = trim_end line"
proof (cases "line \<noteq> [] \<and> last line = 0x0D")
  case True
  then have "line = butlast line @ [CR]" by (metis append_butlast_last_id)
  moreover have "trim_end (butlast line @ [CR]) = trim_end (butlast line)"
    by (simp add: trim_end_def is_space_def)
  ultimately have "trim_end line = trim_end (butlast line)"
    by simp
  then show ?thesis using True by (simp add: strip_cr_def)
next
  case False
  then show ?thesis by (auto simp: strip_cr_def)
qed

lemma same_keys_all_unchanged:
  assumes "trimmed_lines oldText = trimmed_lines newText"
  shows "computeLineDiff oldText newText =
     Inr \<lparr>oldStatuses = replicate (length (split_newline oldText)) Unchanged,
          newStatuses = replicate (length (split_newline newText)) Unchanged\<rparr>"
proof -
  have "length (split_newline oldText) = length (trimmed_lines oldText)"
    by (simp add: trimmed_lines_def)
  moreover have "length (split_newline newText) = length (trimmed_lines newText)"
    by (simp add: trimmed_lines_def)
  ultimately show ?thesis
    using assms by (simp add: computeLineDiff_walk old_marks_walk_same new_marks_walk_same)
qed

subsection \<open>The cells of the finished matrix\<close>

lemma nth_lcs_table:
  "a \<le> length xs \<Longrightarrow> b \<le> length ys \<Longrightarrow> lcs_table xs ys ! a ! b = lcs_cell xs ys a b"
  by (simp add: lcs_table_def less_Suc_eq_le del: upt_Suc)

lemma length_row_lcs_table:
  "a \<le> length xs \<Longrightarrow> length (lcs_table xs ys ! a) = Suc (length ys)"
  by (simp add: lcs_table_def less_Suc_eq_le del: upt_Suc)

lemma lcs_table_rec:
  assumes "1 \<le> i" "i \<le> length xs" "1 \<le> j" "j \<le> length ys"
  shows "lcs_table xs ys ! i ! j =
      (if xs ! (i - 1) = ys ! (j - 1) then lcs_table xs ys ! (i - 1) ! (j - 1) + 1
       else max (lcs_table xs ys ! (i - 1) ! j) (lcs_table xs ys ! i ! (j - 1)))"
proof -
  obtain i0 j0 where ij: "i = Suc i0" "j = Suc j0"
    using assms by (metis One_nat_def Suc_le_D)
  have "i0 \<le> length xs" "j0 \<le> length ys"
    using assms ij by simp_all
  then show ?thesis
    using assms unfolding ij by (simp add: nth_lcs_table)
qed

lemma count_status_count_list: "count_status s statuses = count_list statuses s"
  by (induction statuses) (simp_all add: count_status_def)

section \<open>The claims\<close>

text \<open>
  C1. For the texts \<open>a\nb\<close> and \<open>a\nc\<close> the result is
  \<open>[Unchanged, Modified]\<close> on both sides: the operations are one \<open>equal\<close> and one
  \<open>modify\<close> that pairs the two second lines, not a \<open>remove\<close> and an \<open>add\<close>.
\<close>

theorem substitution_pairing:
  "computeLineDiff (ascii ''a'' @ [LF] @ ascii ''b'') (ascii ''a'' @ [LF] @ ascii ''c'') =
     Inr \<lparr>oldStatuses = [Unchanged, Modified], newStatuses = [Unchanged, Modified]\<rparr> \<and>
   diff_ops (ascii ''a'' @ [LF] @ ascii ''b'') (ascii ''a'' @ [LF] @ ascii ''c'') =
     Inr (0, 0, [OpEqual 0 0, OpModify 1 1])"
  by code_simp

text \<open>
  C2. For every text \<open>T\<close>, comparing \<open>T\<close> with itself gives \<open>Unchanged\<close> for every
  line of both sides.
\<close>

theorem diff_identity:
  "computeLineDiff T T =
     Inr \<lparr>oldStatuses = replicate (length (split_newline T)) Unchanged,
          newStatuses = replicate (length (split_newline T)) Unchanged\<rparr>"
  by (rule same_keys_all_unchanged) (rule refl)

text \<open>
  C3. For all texts \<open>A\<close> and \<open>B\<close>, the number of \<open>Unchanged\<close> lines is the same in the
  comparison of \<open>A\<close> with \<open>B\<close> and in the comparison of \<open>B\<close> with \<open>A\<close>, on the old
  side and on the new side (and the two sides of one comparison agree). The number of
  \<open>Added\<close> lines of one direction need not be the number of \<open>Removed\<close> lines of the
  other: for \<open>b\na\<close> and \<open>a\na\nb\<close> they are 2 and 1, the reverse direction having a
  \<open>Modified\<close> pair.
\<close>

theorem unchanged_counts_symmetric:
  "(\<exists>r r'. computeLineDiff A B = Inr r \<and> computeLineDiff B A = Inr r' \<and>
     count_status Unchanged (oldStatuses r) = count_status Unchanged (oldStatuses r') \<and>
     count_status Unchanged (newStatuses r) = count_status Unchanged (newStatuses r') \<and>
     count_status Unchanged (oldStatuses r) = count_status Unchanged (newStatuses r)) \<and>
   (\<exists>r r'. computeLineDiff (ascii ''b'' @ [LF] @ ascii ''a'')
              (ascii ''a'' @ [LF] @ ascii ''a'' @ [LF] @ ascii ''b'') = Inr r \<and>
     computeLineDiff (ascii ''a'' @ [LF] @ ascii ''a'' @ [LF] @ ascii ''b'')
              (ascii ''b'' @ [LF] @ ascii ''a'') = Inr r' \<and>
     Modified \<in> set (oldStatuses r') \<and>
     count_status Added (newStatuses r) = 2 \<and> count_status Removed (oldStatuses r') = 1)"
proof
  show "\<exists>r r'. computeLineDiff A B = Inr r \<and> computeLineDiff B A = Inr r' \<and>
     count_status Unchanged (oldStatuses r) = count_status Unchanged (oldStatuses r') \<and>
     count_status Unchanged (newStatuses r) = count_status Unchanged (newStatuses r') \<and>
     count_status Unchanged (oldStatuses r) = count_status Unchanged (newStatuses r)"
    by (simp add: computeLineDiff_walk count_status_count_list
        count_old_marks_walk count_new_marks_walk lcs_cell_commute [of "trimmed_lines A"])
  have a: "computeLineDiff (ascii ''b'' @ [LF] @ ascii ''a'')
              (ascii ''a'' @ [LF] @ ascii ''a'' @ [LF] @ ascii ''b'') =
         Inr \<lparr>oldStatuses = [Unchanged, Removed], newStatuses = [Added, Added, Unchanged]\<rparr>"
    by code_simp
  have b: "computeLineDiff (ascii ''a'' @ [LF] @ ascii ''a'' @ [LF] @ ascii ''b'')
              (ascii ''b'' @ [LF] @ ascii ''a'') =
         Inr \<lparr>oldStatuses = [Modified, Unchanged, Removed], newStatuses = [Modified, Unchanged]\<rparr>"
    by code_simp
  show "\<exists>r r'. computeLineDiff (ascii ''b'' @ [LF] @ ascii ''a'')
              (ascii ''a'' @ [LF] @ ascii ''a'' @ [LF] @ ascii ''b'') = Inr r \<and>
     computeLineDiff (ascii ''a'' @ [LF] @ ascii ''a'' @ [LF] @ ascii ''b'')
              (ascii ''b'' @ [LF] @ ascii ''a'') = Inr r' \<and>
     Modified \<in> set (oldStatuses r') \<and>
     count_status Added (newStatuses r) = 2 \<and> count_status Removed (oldStatuses r') = 1"
    unfolding a b by (simp add: count_status_def)
qed

text \<open>
  C4. For all key sequences of lengths \<open>n\<close> and \<open>m\<close>, the matrix is built without a
  failing access, has \<open>n + 1\<close> rows of \<open>m + 1\<close> cells, and satisfies, for
  \<open>1 \<le> i \<le> n\<close> and \<open>1 \<le> j \<le> m\<close>: cell \<open>(i, j)\<close> is cell \<open>(i - 1, j - 1)\<close> plus one
  when old key \<open>i - 1\<close> equals new key \<open>j - 1\<close>, and the maximum of cells
  \<open>(i - 1, j)\<close> and \<open>(i, j - 1)\<close> otherwise; row 0 and column 0 are 0.
\<close>

theorem lcs_matrix_recurrence:
  "\<exists>dp. lcs_matrix oldTrimmed newTrimmed = Inr dp \<and>
     length dp = length oldTrimmed + 1 \<and>
     (\<forall>i. i \<le> length oldTrimmed \<longrightarrow> length (dp ! i) = length newTrimmed + 1) \<and>
     (\<forall>i j. 1 \<le> i \<and> i \<le> length oldTrimmed \<and> 1 \<le> j \<and> j \<le> length newTrimmed \<longrightarrow>
        dp ! i ! j =
          (if oldTrimmed ! (i - 1) = newTrimmed ! (j - 1) then dp ! (i - 1) ! (j - 1) + 1
           else max (dp ! (i - 1) ! j) (dp ! i ! (j - 1)))) \<and>
     (\<forall>j. j \<le> length newTrimmed \<longrightarrow> dp ! 0 ! j = 0) \<and>
     (\<forall>i. i \<le> length oldTrimmed \<longrightarrow> dp ! i ! 0 = 0)"
proof (intro exI conjI allI impI)
  show "lcs_matrix oldTrimmed newTrimmed = Inr (lcs_table oldTrimmed newTrimmed)"
    by (rule lcs_matrix_table)
  show "length (lcs_table oldTrimmed newTrimmed) = length oldTrimmed + 1"
    by (simp add: length_lcs_table)
  show "length (lcs_table oldTrimmed newTrimmed ! i) = length newTrimmed + 1"
    if "i \<le> length oldTrimmed" for i
    using that by (simp add: length_row_lcs_table)
  show "lcs_table oldTrimmed newTrimmed ! i ! j =
      (if oldTrimmed ! (i - 1) = newTrimmed ! (j - 1)
       then lcs_table oldTrimmed newTrimmed ! (i - 1) ! (j - 1) + 1
       else max (lcs_table oldTrimmed newTrimmed ! (i - 1) ! j)
                (lcs_table oldTrimmed newTrimmed ! i ! (j - 1)))"
    if "1 \<le> i \<and> i \<le> length oldTrimmed \<and> 1 \<le> j \<and> j \<le> length newTrimmed" for i j
    using that by (intro lcs_table_rec) simp_all
  show "lcs_table oldTrimmed newTrimmed ! 0 ! j = 0" if "j \<le> length newTrimmed" for j
    using that by (simp add: nth_lcs_table)
  show "lcs_table oldTrimmed newTrimmed ! i ! 0 = 0" if "i \<le> length oldTrimmed" for i
    using that by (simp add: nth_lcs_table)
qed

theorem lcs_matrix_recurrence_witness:
  "\<exists>dp. lcs_matrix ''ab'' ''cb'' = Inr dp \<and> dp ! 2 ! 2 = dp ! 1 ! 1 + 1 \<and>
     dp ! 1 ! 1 = max (dp ! 0 ! 1) (dp ! 1 ! 0) \<and> dp ! 0 ! 2 = 0 \<and> dp ! 2 ! 0 = 0 \<and>
     length (dp ! 2) = 3"
proof -
  obtain dp where m: "lcs_matrix ''ab'' ''cb'' = Inr dp"
    and row: "\<forall>i. i \<le> length ''ab'' \<longrightarrow> length (dp ! i) = length ''cb'' + 1"
    and rec: "\<forall>i j. 1 \<le> i \<and> i \<le> length ''ab'' \<and> 1 \<le> j \<and> j \<le> length ''cb'' \<longrightarrow>
        dp ! i ! j =
          (if ''ab'' ! (i - 1) = ''cb'' ! (j - 1) then dp ! (i - 1) ! (j - 1) + 1
           else max (dp ! (i - 1) ! j) (dp ! i ! (j - 1)))"
    and top: "\<forall>j. j \<le> length ''cb'' \<longrightarrow> dp ! 0 ! j = 0"
    and left: "\<forall>i. i \<le> length ''ab'' \<longrightarrow> dp ! i ! 0 = 0"
    using lcs_matrix_recurrence [of "''ab''" "''cb''"] by (elim exE conjE) (rule that)
  have "dp ! 2 ! 2 = dp ! 1 ! 1 + 1" using rec [rule_format, of 2 2] by simp
  moreover have "dp ! 1 ! 1 = max (dp ! 0 ! 1) (dp ! 1 ! 0)" using rec [rule_format, of 1 1] by simp
  moreover have "dp ! 0 ! 2 = 0" using top [rule_format, of 2] by simp
  moreover have "dp ! 2 ! 0 = 0" using left [rule_format, of 2] by simp
  moreover have "length (dp ! 2) = 3" using row [rule_format, of 2] by simp
  ultimately show ?thesis using m by blast
qed

text \<open>
  C5. For every pair of texts, \<open>oldStatuses\<close> has one entry per line of \<open>oldText\<close> and
  \<open>newStatuses\<close> one entry per line of \<open>newText\<close>, the lines being the pieces of the
  split at line feeds (one more than there are line feeds). The empty text splits into one
  empty line, and both arrays are non-empty for every input.
\<close>

theorem status_lengths:
  "\<exists>r. computeLineDiff oldText newText = Inr r \<and>
     length (oldStatuses r) = length (split_newline oldText) \<and>
     length (newStatuses r) = length (split_newline newText) \<and>
     length (split_newline oldText) = count_list oldText LF + 1 \<and>
     length (split_newline newText) = count_list newText LF + 1 \<and>
     split_newline [] = [[]] \<and>
     oldStatuses r \<noteq> [] \<and> newStatuses r \<noteq> []"
proof -
  let ?ops = "walk (trimmed_lines oldText) (trimmed_lines newText)
      (length (trimmed_lines oldText)) (length (trimmed_lines newText))"
  have o: "length (old_marks ?ops) = length (split_newline oldText)"
    by (simp add: length_old_marks old_indices_walk trimmed_lines_def)
  have n: "length (new_marks ?ops) = length (split_newline newText)"
    by (simp add: length_new_marks new_indices_walk trimmed_lines_def)
  have "old_marks ?ops \<noteq> []" "new_marks ?ops \<noteq> []"
    using o n by (auto simp: length_split_newline simp del: length_0_conv dest!: arg_cong [of _ "[]" length])
  then show ?thesis
    using o n by (simp add: computeLineDiff_walk length_split_newline)
qed

text \<open>
  C6. For every pair of texts, the operations after \<^verbatim>\<open>ops.reverse()\<close> mention the old
  indices \<open>0, \<dots>, n - 1\<close> in this order across \<open>equal\<close>, \<open>remove\<close> and \<open>modify\<close>, and
  the new indices \<open>0, \<dots>, m - 1\<close> in this order across \<open>equal\<close>, \<open>add\<close> and
  \<open>modify\<close>: every index of a side occurs exactly once, and no other index occurs.
\<close>

theorem edit_script_indices:
  "\<exists>i j ops. diff_ops oldText newText = Inr (i, j, ops) \<and>
     old_indices ops = [0..<length (split_newline oldText)] \<and>
     new_indices ops = [0..<length (split_newline newText)] \<and>
     (\<forall>k. count_list (old_indices ops) k = (if k < length (split_newline oldText) then 1 else 0)) \<and>
     (\<forall>k. count_list (new_indices ops) k = (if k < length (split_newline newText) then 1 else 0))"
proof -
  have c: "count_list [0..<n] k = (if k < n then 1 else 0)" for n k :: nat
    by (induction n) auto
  show ?thesis
    by (simp add: diff_ops_walk old_indices_walk new_indices_walk trimmed_lines_def c)
qed

text \<open>
  C7. For the texts \<open>a \nb\<close> and \<open>a\nb\<close> every line of both sides is \<open>Unchanged\<close>: the
  key of the line \<open>a \<close> is \<open>a\<close>. In general, two texts whose lines agree once trailing
  white space is removed have every line \<open>Unchanged\<close>.
\<close>

theorem trailing_whitespace_ignored:
  "computeLineDiff (ascii ''a '' @ [LF] @ ascii ''b'') (ascii ''a'' @ [LF] @ ascii ''b'') =
     Inr \<lparr>oldStatuses = [Unchanged, Unchanged], newStatuses = [Unchanged, Unchanged]\<rparr> \<and>
   trimmed_lines (ascii ''a '' @ [LF] @ ascii ''b'') = [ascii ''a'', ascii ''b''] \<and>
   (map trim_end (split_newline oldText) = map trim_end (split_newline newText) \<longrightarrow>
      computeLineDiff oldText newText =
        Inr \<lparr>oldStatuses = replicate (length (split_newline oldText)) Unchanged,
             newStatuses = replicate (length (split_newline newText)) Unchanged\<rparr>)"
proof (intro conjI impI)
  show "computeLineDiff (ascii ''a '' @ [LF] @ ascii ''b'') (ascii ''a'' @ [LF] @ ascii ''b'') =
     Inr \<lparr>oldStatuses = [Unchanged, Unchanged], newStatuses = [Unchanged, Unchanged]\<rparr>"
    by code_simp
  show "trimmed_lines (ascii ''a '' @ [LF] @ ascii ''b'') = [ascii ''a'', ascii ''b'']"
    by code_simp
  show "computeLineDiff oldText newText =
        Inr \<lparr>oldStatuses = replicate (length (split_newline oldText)) Unchanged,
             newStatuses = replicate (length (split_newline newText)) Unchanged\<rparr>"
    if "map trim_end (split_newline oldText) = map trim_end (split_newline newText)"
    using that by (intro same_keys_all_unchanged) (simp add: trimmed_lines_def)
qed

theorem trailing_whitespace_ignored_witness:
  "map trim_end (split_newline (ascii ''x  '' @ [LF] @ ascii ''y'')) =
     map trim_end (split_newline (ascii ''x'' @ [LF] @ ascii ''y'' @ [0x09])) \<and>
   computeLineDiff (ascii ''x  '' @ [LF] @ ascii ''y'') (ascii ''x'' @ [LF] @ ascii ''y'' @ [0x09]) =
     Inr \<lparr>oldStatuses = [Unchanged, Unchanged], newStatuses = [Unchanged, Unchanged]\<rparr>"
proof -
  have h: "map trim_end (split_newline (ascii ''x  '' @ [LF] @ ascii ''y'')) =
     map trim_end (split_newline (ascii ''x'' @ [LF] @ ascii ''y'' @ [0x09]))"
    by code_simp
  have l: "length (split_newline (ascii ''x  '' @ [LF] @ ascii ''y'')) = 2"
    "length (split_newline (ascii ''x'' @ [LF] @ ascii ''y'' @ [0x09])) = 2"
    by code_simp+
  have r: "replicate 2 Unchanged = [Unchanged, Unchanged]"
    by (simp add: numeral_2_eq_2)
  show ?thesis
    using trailing_whitespace_ignored [of "ascii ''x  '' @ [LF] @ ascii ''y''"
        "ascii ''x'' @ [LF] @ ascii ''y'' @ [0x09]"] h
    unfolding l r by blast
qed

text \<open>
  C8. For every pair of texts the function returns a result: no access to the keys, to the
  matrix or to the status arrays leaves its array (each would end the model with
  \<open>OutOfBounds\<close>), every loop terminates (each is a total function), and the three
  backtracking loops together end with \<open>i = 0\<close> and \<open>j = 0\<close>.
\<close>

theorem diff_total:
  "\<exists>ops r. diff_ops oldText newText = Inr (0, 0, ops) \<and> computeLineDiff oldText newText = Inr r"
  by (simp add: diff_ops_walk computeLineDiff_walk)

text \<open>
  C9. For the empty text and the text \<open>x\<close> the result is \<open>[Modified]\<close> on both sides, by
  the single operation \<open>modify(0, 0)\<close>: every cell of the matrix is 0, so the diagonal
  test holds at cell \<open>(1, 1)\<close>.
\<close>

theorem empty_against_one_line:
  "computeLineDiff [] (ascii ''x'') = Inr \<lparr>oldStatuses = [Modified], newStatuses = [Modified]\<rparr> \<and>
   diff_ops [] (ascii ''x'') = Inr (0, 0, [OpModify 0 0]) \<and>
   lcs_matrix (trimmed_lines []) (trimmed_lines (ascii ''x'')) = Inr [[0, 0], [0, 0]]"
  by code_simp

text \<open>
  C10. Two texts that differ only in line-ending style, CRLF against LF, have every line
  \<open>Unchanged\<close> on both sides. The texts are split at line feeds alone; they differ only
  in line-ending style when their lines agree up to the carriage return that a CRLF ending
  leaves at the end of a line.
\<close>

theorem line_ending_style:
  "map strip_cr (split_newline oldText) = map strip_cr (split_newline newText) \<Longrightarrow>
     computeLineDiff oldText newText =
       Inr \<lparr>oldStatuses = replicate (length (split_newline oldText)) Unchanged,
            newStatuses = replicate (length (split_newline newText)) Unchanged\<rparr>"
proof (rule same_keys_all_unchanged)
  assume "map strip_cr (split_newline oldText) = map strip_cr (split_newline newText)"
  then have "map trim_end (map strip_cr (split_newline oldText)) =
      map trim_end (map strip_cr (split_newline newText))"
    by simp
  then show "trimmed_lines oldText = trimmed_lines newText"
    by (simp add: trimmed_lines_def trim_end_strip_cr comp_def)
qed

theorem line_ending_style_witness:
  "map strip_cr (split_newline (ascii ''a'' @ [CR, LF] @ ascii ''b'' @ [CR, LF])) =
     map strip_cr (split_newline (ascii ''a'' @ [LF] @ ascii ''b'' @ [LF])) \<and>
   computeLineDiff (ascii ''a'' @ [CR, LF] @ ascii ''b'' @ [CR, LF])
       (ascii ''a'' @ [LF] @ ascii ''b'' @ [LF]) =
     Inr \<lparr>oldStatuses = [Unchanged, Unchanged, Unchanged],
          newStatuses = [Unchanged, Unchanged, Unchanged]\<rparr>"
proof -
  have h: "map strip_cr (split_newline (ascii ''a'' @ [CR, LF] @ ascii ''b'' @ [CR, LF])) =
     map strip_cr (split_newline (ascii ''a'' @ [LF] @ ascii ''b'' @ [LF]))"
    by code_simp
  have l: "length (split_newline (ascii ''a'' @ [CR, LF] @ ascii ''b'' @ [CR, LF])) = 3"
    "length (split_newline (ascii ''a'' @ [LF] @ ascii ''b'' @ [LF])) = 3"
    by code_simp+
  have r: "replicate 3 Unchanged = [Unchanged, Unchanged, Unchanged]"
    by (simp add: numeral_3_eq_3)
  show ?thesis
    using line_ending_style [OF h] h unfolding l r by blast
qed

end
